theory Spec2Isabelle
  imports Complex_Main
begin

section \<open>The values of the calculator\<close>

text \<open>
  The screen \<^verbatim>\<open>HomeScreen.tsx\<close> keeps four pieces of state and changes them in the
  handlers of its buttons. The handlers are embedded below as functions from a state to
  the next state; one press is one call of \<open>handleButtonPress\<close>.

  Strings are lists of characters. Every string of this program (button labels, display
  texts, the output of number formatting) consists of code units below 256, so one
  \<^typ>\<open>char\<close> stands for one UTF-16 code unit; the labels of multiplication and division
  are the code units 0xD7 and 0xF7.
\<close>

text \<open>\<^verbatim>\<open>type Operator = "+" | "-" | "\<times>" | "\<div>"\<close>\<close>

datatype Operator = Add | Subtract | Multiply | Divide

text \<open>
  A JavaScript number is an IEEE-754 double: not-a-number, an infinity with its sign
  (\<open>True\<close> is negative), the negative zero, or a finite value, an exact rational;
  \<open>Finite 0\<close> is the positive zero.
\<close>

datatype number = NaN | Infinity bool | NegZero | Finite rat

text \<open>
  The handlers use four things of the language on numbers: the arithmetic operators,
  \<^verbatim>\<open>parseFloat\<close>, \<^verbatim>\<open>Number.isNaN\<close> and \<^verbatim>\<open>toString\<close>. They are defined below as
  ECMAScript defines them: arithmetic is exact arithmetic followed by rounding to the
  nearest double, ties to even; \<^verbatim>\<open>parseFloat\<close> rounds the exact value of the longest
  numeric prefix; \<^verbatim>\<open>toString\<close> writes the shortest digits that round back to the
  number. All of it computes, on exact rationals and integers.
\<close>

subsection \<open>Rounding to a double\<close>

text \<open>The power \<open>b powi e\<close> of an integer base, computed on integers.\<close>

definition pow :: "int \<Rightarrow> int \<Rightarrow> rat" where
  "pow b e = (if 0 \<le> e then of_int (b ^ nat e) else 1 / of_int (b ^ nat (- e)))"

text \<open>The number of digits of \<open>n > 0\<close> in the base \<open>b > 1\<close>.\<close>

function digit_count :: "int \<Rightarrow> int \<Rightarrow> int" where
  "digit_count b n = (if n \<le> 0 \<or> b \<le> 1 then 0 else 1 + digit_count b (n div b))"
  by pat_completeness auto
termination
  by (relation "measure (\<lambda>(b, n). nat n)") (auto simp: int_div_less_self)

declare digit_count.simps [simp del]

text \<open>
  For \<open>r > 0\<close>, the exponent \<open>e\<close> with \<open>b powi e \<le> r < b powi (e + 1)\<close>: the difference
  of the digit counts of numerator and denominator, or one less.
\<close>

definition floor_log :: "int \<Rightarrow> rat \<Rightarrow> int" where
  "floor_log b r =
     (let (n, d) = quotient_of r;
          e = digit_count b n - digit_count b d
      in if pow b e \<le> r then e else e - 1)"

definition binary_exponent :: "rat \<Rightarrow> int" where
  "binary_exponent r = floor_log 2 r"

definition round_half_even :: "rat \<Rightarrow> int" where
  "round_half_even q =
     (let f = \<lfloor>q\<rfloor>; d = q - of_int f
      in if d < 1 / 2 then f
         else if 1 / 2 < d then f + 1
         else if even f then f else f + 1)"

text \<open>
  The multiple of the unit in the last place that is nearest to \<open>r \<ge> 0\<close>, ties to the
  even significand: 53 bits of significand, the least exponent of a normal number is
  \<open>-1022\<close>, and below it the unit stays \<open>2 powi (-1074)\<close> (subnormal numbers). The result
  is \<open>2 ^ 1024\<close> or more exactly when \<open>r\<close> rounds to infinity.
\<close>

definition nearest :: "rat \<Rightarrow> rat" where
  "nearest r =
     (if r = 0 then 0
      else let e = max (binary_exponent r) (- 1022);
               u = pow 2 (e - 52)
           in of_int (round_half_even (r / u)) * u)"

text \<open>The double nearest to the magnitude \<open>r \<ge> 0\<close>, with the sign \<open>neg\<close>.\<close>

definition fl :: "bool \<Rightarrow> rat \<Rightarrow> number" where
  "fl neg r =
     (let v = nearest r
      in if of_int (2 ^ 1024) \<le> v then Infinity neg
         else if v = 0 then (if neg then NegZero else Finite 0)
         else Finite (if neg then - v else v))"

subsection \<open>Arithmetic of doubles\<close>

text \<open>The sign bit and the exact value of a number that is not \<open>NaN\<close> or infinite.\<close>

fun negative :: "number \<Rightarrow> bool" where
  "negative NaN = False"
| "negative (Infinity s) = s"
| "negative NegZero = True"
| "negative (Finite r) = (r < 0)"

fun val :: "number \<Rightarrow> rat" where
  "val (Finite r) = r"
| "val x = 0"

fun num_add :: "number \<Rightarrow> number \<Rightarrow> number" where
  "num_add NaN y = NaN"
| "num_add x NaN = NaN"
| "num_add (Infinity s) (Infinity t) = (if s = t then Infinity s else NaN)"
| "num_add (Infinity s) y = Infinity s"
| "num_add x (Infinity t) = Infinity t"
| "num_add NegZero NegZero = NegZero"
| "num_add x y =
     (let r = val x + val y
      in if r = 0 then Finite 0
         else if r < 0 then fl True (- r) else fl False r)"

fun num_neg :: "number \<Rightarrow> number" where
  "num_neg NaN = NaN"
| "num_neg (Infinity s) = Infinity (\<not> s)"
| "num_neg NegZero = Finite 0"
| "num_neg (Finite r) = (if r = 0 then NegZero else Finite (- r))"

definition num_sub :: "number \<Rightarrow> number \<Rightarrow> number" where
  "num_sub x y = num_add x (num_neg y)"

fun num_mul :: "number \<Rightarrow> number \<Rightarrow> number" where
  "num_mul NaN y = NaN"
| "num_mul x NaN = NaN"
| "num_mul (Infinity s) (Infinity t) = Infinity (s \<noteq> t)"
| "num_mul (Infinity s) y = (if val y = 0 then NaN else Infinity (s \<noteq> negative y))"
| "num_mul x (Infinity t) = (if val x = 0 then NaN else Infinity (negative x \<noteq> t))"
| "num_mul x y = fl (negative x \<noteq> negative y) (\<bar>val x\<bar> * \<bar>val y\<bar>)"

fun num_div :: "number \<Rightarrow> number \<Rightarrow> number" where
  "num_div NaN y = NaN"
| "num_div x NaN = NaN"
| "num_div (Infinity s) (Infinity t) = NaN"
| "num_div (Infinity s) y = Infinity (s \<noteq> negative y)"
| "num_div x (Infinity t) = (if negative x \<noteq> t then NegZero else Finite 0)"
| "num_div x y =
     (if val y = 0 then (if val x = 0 then NaN else Infinity (negative x \<noteq> negative y))
      else fl (negative x \<noteq> negative y) (\<bar>val x\<bar> / \<bar>val y\<bar>))"

text \<open>\<^verbatim>\<open>x === 0\<close> holds of both zeros; \<^verbatim>\<open>Number.isNaN(x)\<close> of \<open>NaN\<close> alone.\<close>

fun is_zero :: "number \<Rightarrow> bool" where
  "is_zero NegZero = True"
| "is_zero (Finite r) = (r = 0)"
| "is_zero x = False"

fun isNaN :: "number \<Rightarrow> bool" where
  "isNaN NaN = True"
| "isNaN x = False"

subsection \<open>\<^verbatim>\<open>parseFloat\<close>\<close>

definition is_digit :: "char \<Rightarrow> bool" where
  "is_digit c = (48 \<le> (of_char c :: nat) \<and> (of_char c :: nat) \<le> 57)"

definition is_white_space :: "char \<Rightarrow> bool" where
  "is_white_space c = ((of_char c :: nat) \<in> {9, 10, 11, 12, 13, 32, 160})"

definition digits_value :: "string \<Rightarrow> int" where
  "digits_value ds = foldl (\<lambda>acc c. 10 * acc + (of_char c - 48)) 0 ds"

text \<open>The value of an exponent part \<^verbatim>\<open>e\<close>, \<^verbatim>\<open>e+\<close> or \<^verbatim>\<open>e-\<close> and digits; 0 when there is none.\<close>

definition exponent_part :: "string \<Rightarrow> int" where
  "exponent_part u =
     (case u of
        [] \<Rightarrow> 0
      | c # rest \<Rightarrow>
          if c = CHR ''e'' \<or> c = CHR ''E'' then
            (case rest of
               [] \<Rightarrow> 0
             | d # rest' \<Rightarrow>
                 if d = CHR ''-'' then - digits_value (takeWhile is_digit rest')
                 else if d = CHR ''+'' then digits_value (takeWhile is_digit rest')
                 else digits_value (takeWhile is_digit rest))
          else 0)"

text \<open>
  \<^verbatim>\<open>parseFloat\<close> skips leading white space, reads the longest prefix that is a decimal
  literal (a sign, then \<^verbatim>\<open>Infinity\<close> or digits with an optional fraction and an optional
  exponent) and rounds its value to a double; it is \<open>NaN\<close> when there is no such prefix.
\<close>

definition parseFloat :: "string \<Rightarrow> number" where
  "parseFloat str =
     (let t = dropWhile is_white_space str;
          neg = (take 1 t = ''-'');
          u = (if take 1 t = ''-'' \<or> take 1 t = ''+'' then drop 1 t else t)
      in if take 8 u = ''Infinity'' then Infinity neg
         else
           let ip = takeWhile is_digit u;
               u1 = dropWhile is_digit u;
               dot = (take 1 u1 = ''.'');
               fp = (if dot then takeWhile is_digit (drop 1 u1) else []);
               u2 = (if dot then dropWhile is_digit (drop 1 u1) else u1)
           in if ip = [] \<and> fp = [] then NaN
              else fl neg (of_int (digits_value (ip @ fp))
                     * pow 10 (exponent_part u2 - int (length fp))))"

subsection \<open>\<^verbatim>\<open>Number.prototype.toString\<close>\<close>

function decimal :: "int \<Rightarrow> string" where
  "decimal n =
     (if n < 10 then [char_of (48 + n)]
      else decimal (n div 10) @ [char_of (48 + n mod 10)])"
  by pat_completeness auto
termination
  by (relation "measure nat") auto

declare decimal.simps [simp del]

text \<open>For \<open>r > 0\<close>, the \<open>n\<close> with \<open>10 powi (n - 1) \<le> r < 10 powi n\<close>.\<close>

definition decimal_exponent :: "rat \<Rightarrow> int" where
  "decimal_exponent r = floor_log 10 r + 1"

text \<open>
  The integer \<open>s\<close> of \<open>k\<close> digits for which \<open>s * 10 powi (n - k)\<close> rounds to the double
  \<open>r\<close>, if there is one: it is one of the two integers around \<open>r / 10 powi (n - k)\<close>, and
  the one nearer to \<open>r\<close> when both qualify.
\<close>

definition candidate :: "rat \<Rightarrow> int \<Rightarrow> nat \<Rightarrow> int option" where
  "candidate r n k =
     (let p = pow 10 (n - int k);
          lo = \<lfloor>r / p\<rfloor>;
          hi = lo + 1;
          lo_ok = (nearest (of_int lo * p) = r);
          hi_ok = (nearest (of_int hi * p) = r)
      in if lo_ok \<and> hi_ok then
           (if r - of_int lo * p < of_int hi * p - r then Some lo
            else if of_int hi * p - r < r - of_int lo * p then Some hi
            else if even lo then Some lo else Some hi)
         else if lo_ok then Some lo
         else if hi_ok then Some hi
         else None)"

text \<open>
  The least number of digits \<open>k\<close> that has a candidate, from \<open>k\<close> on, with the
  candidate. Seventeen digits identify every double, so the search ends there with the
  integer nearest to \<open>r / 10 powi (n - 17)\<close>.
\<close>

function shortest :: "rat \<Rightarrow> int \<Rightarrow> nat \<Rightarrow> int \<times> nat" where
  "shortest r n k =
     (case candidate r n k of
        Some s \<Rightarrow> (s, k)
      | None \<Rightarrow>
          if 17 \<le> k then (round_half_even (r / pow 10 (n - int k)), k)
          else shortest r n (Suc k))"
  by pat_completeness auto
termination
  by (relation "measure (\<lambda>(r, n, k). 17 - k)") auto

declare shortest.simps [simp del]

text \<open>
  The text of the digits \<open>ds\<close> (there are \<open>k\<close> of them) with the decimal exponent \<open>n\<close>:
  plain notation when \<open>-5 \<le> n \<le> 21\<close> and exponent notation otherwise.
\<close>

definition format_digits :: "string \<Rightarrow> int \<Rightarrow> string" where
  "format_digits ds n =
     (let k = int (length ds)
      in if - 5 \<le> n \<and> n \<le> 21 then
           (if k \<le> n then ds @ replicate (nat (n - k)) CHR ''0''
            else if 0 < n then take (nat n) ds @ ''.'' @ drop (nat n) ds
            else ''0.'' @ replicate (nat (- n)) CHR ''0'' @ ds)
         else
           (let e = n - 1;
                ex = (if e < 0 then ''-'' else ''+'') @ decimal \<bar>e\<bar>
            in if k = 1 then ds @ ''e'' @ ex
               else take 1 ds @ ''.'' @ drop 1 ds @ ''e'' @ ex))"

text \<open>
  The text of a finite \<open>r > 0\<close>. A candidate \<open>10 ^ k\<close> (the upper neighbour of
  \<open>r / 10 powi (n - k)\<close> can be one) is the digit 1 with the next exponent.
\<close>

definition to_string_positive :: "rat \<Rightarrow> string" where
  "to_string_positive r =
     (let n = decimal_exponent r;
          (s, k) = shortest r n 1
      in if s = 10 ^ k then format_digits ''1'' (n + 1)
         else format_digits (decimal s) n)"

fun toString :: "number \<Rightarrow> string" where
  "toString NaN = ''NaN''"
| "toString (Infinity neg) = (if neg then ''-Infinity'' else ''Infinity'')"
| "toString NegZero = ''0''"
| "toString (Finite r) =
     (if r = 0 then ''0''
      else if r < 0 then ''-'' @ to_string_positive (- r)
      else to_string_positive r)"

section \<open>The state and its handlers\<close>

text \<open>The four \<^verbatim>\<open>useState\<close> cells of the screen; \<open>None\<close> is \<^verbatim>\<open>null\<close>.\<close>

record CalculatorState =
  displayValue :: string
  previousValue :: "number option"
  operator :: "Operator option"
  isNewEntry :: bool

definition initialState :: CalculatorState where
  "initialState =
     \<lparr>displayValue = ''0'', previousValue = None, operator = None, isNewEntry = True\<rparr>"

definition handleDigitPress :: "string \<Rightarrow> CalculatorState \<Rightarrow> CalculatorState" where
  "handleDigitPress digit st =
     (if isNewEntry st \<or> displayValue st = ''0''
      then st\<lparr>isNewEntry := False, displayValue := digit\<rparr>
      else st\<lparr>displayValue := displayValue st @ digit\<rparr>)"

definition handleDotPress :: "CalculatorState \<Rightarrow> CalculatorState" where
  "handleDotPress st =
     (if isNewEntry st then st\<lparr>isNewEntry := False, displayValue := ''0.''\<rparr>
      else if CHR ''.'' \<in> set (displayValue st) then st
      else st\<lparr>displayValue := displayValue st @ ''.''\<rparr>)"

text \<open>
  \<^verbatim>\<open>performCalculation\<close>. The \<^verbatim>\<open>default\<close> branch of its \<^verbatim>\<open>switch\<close> has no case here:
  the type \<open>Operator\<close> has the four operators only.
\<close>

fun performCalculation :: "Operator \<Rightarrow> number \<Rightarrow> number \<Rightarrow> number" where
  "performCalculation Add a b = num_add a b"
| "performCalculation Subtract a b = num_sub a b"
| "performCalculation Multiply a b = num_mul a b"
| "performCalculation Divide a b = (if is_zero b then NaN else num_div a b)"

text \<open>
  The text that both evaluating handlers put on the display:
  \<^verbatim>\<open>Number.isNaN(result) ? "Error" : result.toString()\<close>.
\<close>

definition result_text :: "number \<Rightarrow> string" where
  "result_text result = (if isNaN result then ''Error'' else toString result)"

definition handleOperatorPress :: "Operator \<Rightarrow> CalculatorState \<Rightarrow> CalculatorState" where
  "handleOperatorPress nextOperator st =
     (let current = parseFloat (displayValue st);
          st' = (case (previousValue st, operator st) of
                   (Some prev, Some op) \<Rightarrow>
                     if \<not> isNewEntry st then
                       (let result = performCalculation op prev current
                        in st\<lparr>previousValue := Some result,
                              displayValue := result_text result\<rparr>)
                     else st\<lparr>previousValue := Some current\<rparr>
                 | _ \<Rightarrow> st\<lparr>previousValue := Some current\<rparr>)
      in st'\<lparr>operator := Some nextOperator, isNewEntry := True\<rparr>)"

definition handleEqualsPress :: "CalculatorState \<Rightarrow> CalculatorState" where
  "handleEqualsPress st =
     (case (operator st, previousValue st) of
        (Some op, Some prev) \<Rightarrow>
          (let current = parseFloat (displayValue st);
               result = performCalculation op prev current
           in st\<lparr>displayValue := result_text result, previousValue := None,
                 operator := None, isNewEntry := True\<rparr>)
      | _ \<Rightarrow> st)"

definition handleClearPress :: "CalculatorState \<Rightarrow> CalculatorState" where
  "handleClearPress st =
     st\<lparr>displayValue := ''0'', previousValue := None, operator := None,
        isNewEntry := True\<rparr>"

definition handleToggleSignPress :: "CalculatorState \<Rightarrow> CalculatorState" where
  "handleToggleSignPress st =
     (let current = displayValue st
      in if current = ''0'' \<or> current = ''Error'' then st
         else if take 1 current = ''-'' then st\<lparr>displayValue := drop 1 current\<rparr>
         else st\<lparr>displayValue := ''-'' @ current\<rparr>)"

definition handlePercentPress :: "CalculatorState \<Rightarrow> CalculatorState" where
  "handlePercentPress st =
     (let current = displayValue st;
          v = parseFloat current
      in if isNaN v then st
         else st\<lparr>displayValue := toString (num_div v (Finite 100))\<rparr>)"

text \<open>
  \<^verbatim>\<open>handleButtonPress\<close>: a label of one decimal digit is a digit press; the other labels
  are told apart by the \<^verbatim>\<open>switch\<close>, and an unknown label does nothing.
\<close>

definition times_label :: string where
  "times_label = [CHR 0xD7]"

definition divide_label :: string where
  "divide_label = [CHR 0xF7]"

definition is_digit_label :: "string \<Rightarrow> bool" where
  "is_digit_label label = (case label of [c] \<Rightarrow> is_digit c | _ \<Rightarrow> False)"

definition handleButtonPress :: "string \<Rightarrow> CalculatorState \<Rightarrow> CalculatorState" where
  "handleButtonPress label st =
     (if is_digit_label label then handleDigitPress label st
      else if label = ''.'' then handleDotPress st
      else if label = ''AC'' then handleClearPress st
      else if label = ''+/-'' then handleToggleSignPress st
      else if label = ''%'' then handlePercentPress st
      else if label = ''+'' then handleOperatorPress Add st
      else if label = ''-'' then handleOperatorPress Subtract st
      else if label = times_label then handleOperatorPress Multiply st
      else if label = divide_label then handleOperatorPress Divide st
      else if label = ''='' then handleEqualsPress st
      else st)"

text \<open>\<^verbatim>\<open>isOperator\<close>: the four operator labels.\<close>

definition isOperator :: "string \<Rightarrow> bool" where
  "isOperator label =
     (label = ''+'' \<or> label = ''-'' \<or> label = times_label \<or> label = divide_label)"

text \<open>The presses of a list of labels, in order.\<close>

definition presses :: "string list \<Rightarrow> CalculatorState \<Rightarrow> CalculatorState" where
  "presses labels st = foldl (\<lambda>s label. handleButtonPress label s) st labels"

text \<open>The states that some sequence of presses reaches from the initial state.\<close>

inductive reachable :: "CalculatorState \<Rightarrow> bool" where
  reachable_initial: "reachable initialState"
| reachable_press: "reachable st \<Longrightarrow> reachable (handleButtonPress label st)"

section \<open>Notions for the properties\<close>

text \<open>The number of decimal points of a text, and texts that consist of digits.\<close>

definition decimal_points :: "string \<Rightarrow> nat" where
  "decimal_points s = length (filter (\<lambda>c. c = CHR ''.'') s)"

definition digits_only :: "string \<Rightarrow> bool" where
  "digits_only s = list_all is_digit s"

text \<open>
  A text is well signed when it is not empty and a leading minus sign is followed by
  something that is not empty, not another minus sign, and neither \<open>0\<close> nor \<open>Error\<close>.
  The invariant of the display: it is well signed, and it shows \<open>Error\<close> only in new-entry
  mode.
\<close>

definition well_signed :: "string \<Rightarrow> bool" where
  "well_signed s =
     (case s of
        [] \<Rightarrow> False
      | c # w \<Rightarrow>
          if c = CHR ''-'' then w \<noteq> [] \<and> take 1 w \<noteq> ''-'' \<and> w \<noteq> ''0'' \<and> w \<noteq> ''Error''
          else True)"

definition display_invariant :: "CalculatorState \<Rightarrow> bool" where
  "display_invariant st =
     (well_signed (displayValue st) \<and> (displayValue st = ''Error'' \<longrightarrow> isNewEntry st))"

text \<open>
  The evaluation that a press carries out, if it carries one out: the operator and the
  two operands that \<open>handleOperatorPress\<close> or \<open>handleEqualsPress\<close> hands to
  \<open>performCalculation\<close>. An operator press evaluates when an operand and an operator are
  pending and the state is not in new-entry mode; the equals press evaluates when both
  are pending.
\<close>

definition evaluation :: "string \<Rightarrow> CalculatorState \<Rightarrow> (Operator \<times> number \<times> number) option" where
  "evaluation label st =
     (if label = ''='' \<or> (isOperator label \<and> \<not> isNewEntry st) then
        (case (previousValue st, operator st) of
           (Some prev, Some op) \<Rightarrow> Some (op, prev, parseFloat (displayValue st))
         | _ \<Rightarrow> None)
      else None)"

text \<open>
  The operations on operands that are numbers and still have no value: the sum of
  opposite infinities, the difference of equal infinities, the product of a zero and an
  infinity, the quotient of two infinities.
\<close>

fun is_infinite :: "number \<Rightarrow> bool" where
  "is_infinite (Infinity s) = True"
| "is_infinite x = False"

fun indeterminate :: "Operator \<Rightarrow> number \<Rightarrow> number \<Rightarrow> bool" where
  "indeterminate Add a b = (is_infinite a \<and> is_infinite b \<and> negative a \<noteq> negative b)"
| "indeterminate Subtract a b = (is_infinite a \<and> is_infinite b \<and> negative a = negative b)"
| "indeterminate Multiply a b = (is_infinite a \<and> is_zero b \<or> is_zero a \<and> is_infinite b)"
| "indeterminate Divide a b = (is_infinite a \<and> is_infinite b)"

section \<open>The dispatch on the label\<close>

lemma is_digit_label_iff: "is_digit_label label \<longleftrightarrow> (\<exists>c. label = [c] \<and> is_digit c)"
  by (cases label rule: list.exhaust; cases "tl label") (auto simp: is_digit_label_def)

lemma not_digit_labels [simp]:
  "\<not> is_digit_label ''.''" "\<not> is_digit_label ''AC''" "\<not> is_digit_label ''+/-''"
  "\<not> is_digit_label ''%''" "\<not> is_digit_label ''+''" "\<not> is_digit_label ''-''"
  "\<not> is_digit_label times_label" "\<not> is_digit_label divide_label"
  "\<not> is_digit_label ''=''"
  by (simp_all add: is_digit_label_def is_digit_def times_label_def divide_label_def)

lemma press_digit: "is_digit c \<Longrightarrow> handleButtonPress [c] st = handleDigitPress [c] st"
  by (simp add: handleButtonPress_def is_digit_label_def)

lemma press_dot: "handleButtonPress ''.'' st = handleDotPress st"
  by (simp add: handleButtonPress_def)

lemma press_clear: "handleButtonPress ''AC'' st = handleClearPress st"
  by (simp add: handleButtonPress_def)

lemma press_toggle_sign: "handleButtonPress ''+/-'' st = handleToggleSignPress st"
  by (simp add: handleButtonPress_def)

lemma press_percent: "handleButtonPress ''%'' st = handlePercentPress st"
  by (simp add: handleButtonPress_def)

lemma press_equals: "handleButtonPress ''='' st = handleEqualsPress st"
  by (simp add: handleButtonPress_def times_label_def divide_label_def)

lemma press_minus: "handleButtonPress ''-'' st = handleOperatorPress Subtract st"
  by (simp add: handleButtonPress_def)

lemma presses_snoc: "presses (labels @ [label]) st = handleButtonPress label (presses labels st)"
  by (simp add: presses_def)

text \<open>Every press is one of the handlers, or does nothing.\<close>

lemma handleButtonPress_cases:
  obtains
    (digit) c where "label = [c]" "is_digit c"
      "handleButtonPress label st = handleDigitPress [c] st"
  | (dot) "handleButtonPress label st = handleDotPress st"
  | (clear) "handleButtonPress label st = handleClearPress st"
  | (toggle) "handleButtonPress label st = handleToggleSignPress st"
  | (percent) "handleButtonPress label st = handlePercentPress st"
  | (operator) op where "isOperator label"
      "handleButtonPress label st = handleOperatorPress op st"
  | (equals) "label = ''=''" "handleButtonPress label st = handleEqualsPress st"
  | (other) "handleButtonPress label st = st"
proof (cases "is_digit_label label")
  case True
  then obtain c where "label = [c]" "is_digit c"
    by (auto simp: is_digit_label_iff)
  then show ?thesis
    using digit press_digit by blast
next
  case False
  define next_state where "next_state = handleButtonPress label st"
  then have
    "next_state =
       (if label = ''.'' then handleDotPress st
        else if label = ''AC'' then handleClearPress st
        else if label = ''+/-'' then handleToggleSignPress st
        else if label = ''%'' then handlePercentPress st
        else if label = ''+'' then handleOperatorPress Add st
        else if label = ''-'' then handleOperatorPress Subtract st
        else if label = times_label then handleOperatorPress Multiply st
        else if label = divide_label then handleOperatorPress Divide st
        else if label = ''='' then handleEqualsPress st
        else st)"
    using False by (simp only: handleButtonPress_def if_False)
  then have
    "next_state = handleDotPress st
     \<or> next_state = handleClearPress st
     \<or> next_state = handleToggleSignPress st
     \<or> next_state = handlePercentPress st
     \<or> (\<exists>op. isOperator label \<and> next_state = handleOperatorPress op st)
     \<or> (label = ''='' \<and> next_state = handleEqualsPress st)
     \<or> next_state = st"
    unfolding isOperator_def by (metis (full_types))
  then show ?thesis
    unfolding next_state_def
    using dot clear toggle percent operator equals other by blast
qed

section \<open>Numbers and their texts\<close>

lemma pow_eq_powi: "pow b e = of_int b powi e"
  by (simp add: pow_def power_int_def field_simps)

lemma pow_pos: "0 < b \<Longrightarrow> 0 < pow b e"
  by (simp add: pow_def)

lemma digit_count_nonneg: "0 \<le> digit_count b n"
  by (induction b n rule: digit_count.induct) (subst digit_count.simps, simp)

lemma digit_count_upper:
  assumes "1 < b"
  shows "n < b ^ nat (digit_count b n)"
  using assms
proof (induction b n rule: digit_count.induct)
  case (1 b n)
  show ?case
  proof (cases "n \<le> 0")
    case True
    then show ?thesis by (subst digit_count.simps) simp
  next
    case False
    with 1 have "n div b < b ^ nat (digit_count b (n div b))" by simp
    then have "n div b + 1 \<le> b ^ nat (digit_count b (n div b))" by simp
    then have "b * (n div b + 1) \<le> b * b ^ nat (digit_count b (n div b))"
      using 1(2) by (simp add: mult_left_mono)
    moreover have "n < b * (n div b + 1)"
    proof -
      have "b * (n div b) + n mod b = n" by simp
      moreover have "n mod b < b" using 1(2) by simp
      ultimately have "n < b * (n div b) + b" by linarith
      then show ?thesis by (simp add: distrib_left)
    qed
    moreover have "nat (digit_count b n) = Suc (nat (digit_count b (n div b)))"
      using False 1(2) digit_count_nonneg[of b "n div b"] by (subst digit_count.simps) simp
    ultimately show ?thesis by simp
  qed
qed

lemma digit_count_positive:
  assumes "1 < b" "0 < n"
  shows "0 < digit_count b n"
  using assms digit_count_nonneg[of b "n div b"] by (subst digit_count.simps) simp

lemma digit_count_lower:
  assumes "1 < b" "0 < n"
  shows "b ^ nat (digit_count b n - 1) \<le> n"
  using assms
proof (induction b n rule: digit_count.induct)
  case (1 b n)
  have step: "digit_count b n = 1 + digit_count b (n div b)"
    using 1(2,3) by (subst digit_count.simps) simp
  show ?case
  proof (cases "n div b \<le> 0")
    case True
    then have "digit_count b (n div b) = 0"
      by (subst digit_count.simps) simp
    with step 1(3) show ?thesis by simp
  next
    case False
    with 1 have ih: "b ^ nat (digit_count b (n div b) - 1) \<le> n div b" by simp
    from False 1(2) have pos: "0 < digit_count b (n div b)"
      by (simp add: digit_count_positive)
    then have "nat (digit_count b n - 1) = Suc (nat (digit_count b (n div b) - 1))"
      using step by simp
    then have "b ^ nat (digit_count b n - 1) = b * b ^ nat (digit_count b (n div b) - 1)"
      by simp
    also have "\<dots> \<le> b * (n div b)"
      using ih 1(2) by (simp add: mult_left_mono)
    also have "\<dots> \<le> n"
      using 1(2) by (metis add_increasing2 mult_div_mod_eq order_refl pos_mod_sign
          less_trans zero_less_one)
    finally show ?thesis .
  qed
qed

lemma floor_log_lower:
  assumes "1 < b" "0 < r"
  shows "pow b (floor_log b r) \<le> r"
proof -
  obtain n d where q: "quotient_of r = (n, d)" by (cases "quotient_of r")
  then have d: "0 < d" and r: "r = of_int n / of_int d"
    using quotient_of_denom_pos quotient_of_div by blast+
  with assms(2) have n: "0 < n"
    by (simp add: zero_less_divide_iff)
  define ln ld where "ln = digit_count b n" and "ld = digit_count b d"
  define e where "e = ln - ld"
  have fl: "floor_log b r = (if pow b e \<le> r then e else e - 1)"
    by (simp add: floor_log_def q ln_def ld_def e_def Let_def)
  have b0: "(of_int b :: rat) \<noteq> 0" "(0::rat) < of_int b"
    using assms(1) by simp_all
  show ?thesis
  proof (cases "pow b e \<le> r")
    case True
    with fl show ?thesis by simp
  next
    case False
    have ln: "b ^ nat (ln - 1) \<le> n"
      using assms(1) n digit_count_lower[of b n] by (simp add: ln_def)
    have ln_pos: "0 < ln"
      using assms(1) n by (simp add: ln_def digit_count_positive)
    have ld_nonneg: "0 \<le> ld"
      by (simp add: ld_def digit_count_nonneg)
    have ld: "d < b ^ nat ld"
      using assms(1) digit_count_upper[of b d] by (simp add: ld_def)
    have num: "(of_int b :: rat) ^ nat (ln - 1) \<le> of_int n"
    proof -
      have "(of_int (b ^ nat (ln - 1)) :: rat) \<le> of_int n"
        using ln by (simp only: of_int_le_iff)
      then show ?thesis by simp
    qed
    have den: "(of_int d :: rat) \<le> of_int b ^ nat ld"
    proof -
      have "(of_int d :: rat) \<le> of_int (b ^ nat ld)"
        by (metis ld less_imp_le of_int_le_iff)
      then show ?thesis by simp
    qed
    have pos: "(0::rat) < of_int b ^ nat ld"
      using b0 by simp
    have eq: "e - 1 = int (nat (ln - 1)) - int (nat ld)"
      using ln_pos ld_nonneg by (simp add: e_def)
    have "pow b (e - 1) = (of_int b :: rat) powi (e - 1)"
      by (simp add: pow_eq_powi)
    also have "\<dots> = of_int b powi int (nat (ln - 1)) / of_int b powi int (nat ld)"
      unfolding eq using b0(1) by (intro power_int_diff) simp
    also have "\<dots> = of_int b ^ nat (ln - 1) / of_int b ^ nat ld"
      by (simp only: power_int_of_nat)
    also have "\<dots> \<le> of_int n / of_int b ^ nat ld"
      using num pos by (simp add: divide_right_mono)
    also have "\<dots> \<le> of_int n / of_int d"
      using den n d by (intro frac_le) simp_all
    finally show ?thesis
      using False fl r by simp
  qed
qed

lemma decimal_exponent_lower:
  assumes "0 < r"
  shows "pow 10 (decimal_exponent r - 1) \<le> r"
  using floor_log_lower[of 10 r] assms by (simp add: decimal_exponent_def)

lemma round_half_even_ge:
  assumes "1 \<le> q"
  shows "1 \<le> round_half_even q"
proof -
  have "1 \<le> \<lfloor>q\<rfloor>" using assms by simp
  then show ?thesis by (simp add: round_half_even_def Let_def)
qed

lemma nearest_zero [simp]: "nearest 0 = 0"
  by (simp add: nearest_def)

lemma candidate_positive:
  assumes "0 < r" "candidate r n k = Some s"
  shows "0 < s"
proof -
  define p where "p = pow 10 (n - int k)"
  define lo where "lo = \<lfloor>r / p\<rfloor>"
  have "0 < p"
    by (simp add: p_def pow_pos)
  with assms(1) have lo: "0 \<le> lo"
    by (simp add: lo_def)
  have "(s = lo \<and> nearest (of_int lo * p) = r) \<or> s = lo + 1"
    using assms(2) unfolding candidate_def Let_def p_def[symmetric] lo_def[symmetric]
    by (auto split: if_splits)
  then show ?thesis
  proof
    assume a: "s = lo \<and> nearest (of_int lo * p) = r"
    with assms(1) have "lo \<noteq> 0" by auto
    with a lo show ?thesis by simp
  next
    assume "s = lo + 1"
    with lo show ?thesis by simp
  qed
qed

lemma shortest_positive:
  assumes "0 < r" "pow 10 (n - 1) \<le> r" "1 \<le> k"
  shows "0 < fst (shortest r n k)"
  using assms
proof (induction r n k rule: shortest.induct)
  case (1 r n k)
  show ?case
  proof (cases "candidate r n k")
    case (Some s)
    with 1(2) candidate_positive show ?thesis
      by (subst shortest.simps) auto
  next
    case None
    show ?thesis
    proof (cases "17 \<le> k")
      case True
      have "pow 10 (n - 1) = pow 10 (n - int k) * pow 10 (int k - 1)"
        by (simp add: pow_eq_powi flip: power_int_add)
      moreover have "1 \<le> pow 10 (int k - 1)"
        using 1(4) by (simp add: pow_def)
      moreover have p: "0 < pow 10 (n - int k)"
        by (simp add: pow_pos)
      ultimately have "pow 10 (n - int k) \<le> pow 10 (n - 1)"
        by (metis mult.right_neutral mult_le_cancel_left_pos)
      with 1(3) p have "1 \<le> r / pow 10 (n - int k)"
        by (simp add: pos_le_divide_eq)
      then have "1 \<le> round_half_even (r / pow 10 (n - int k))"
        by (rule round_half_even_ge)
      with None True show ?thesis
        by (subst shortest.simps) simp
    next
      case False
      with None 1 show ?thesis
        by (subst shortest.simps) simp
    qed
  qed
qed

lemma decimal_points_simps [simp]:
  "decimal_points [] = 0"
  "decimal_points (c # s) = (if c = CHR ''.'' then Suc (decimal_points s) else decimal_points s)"
  "decimal_points (s @ t) = decimal_points s + decimal_points t"
  by (simp_all add: decimal_points_def)

lemma decimal_points_replicate_zero [simp]: "decimal_points (replicate m CHR ''0'') = 0"
  by (induction m) simp_all

lemma digits_only_simps [simp]:
  "digits_only []"
  "digits_only (c # s) \<longleftrightarrow> is_digit c \<and> digits_only s"
  "digits_only (s @ t) \<longleftrightarrow> digits_only s \<and> digits_only t"
  by (simp_all add: digits_only_def)

lemma digits_only_take_drop: "digits_only s \<Longrightarrow> digits_only (take m s) \<and> digits_only (drop m s)"
  by (metis append_take_drop_id digits_only_simps(3))

lemma digits_only_no_point [simp]: "digits_only s \<Longrightarrow> decimal_points s = 0"
  by (induction s) (auto simp: is_digit_def)

lemma is_digit_char_of: "0 \<le> m \<Longrightarrow> m < 10 \<Longrightarrow> is_digit (char_of (48 + m :: int))"
proof -
  assume m: "0 \<le> m" "m < 10"
  define k where "k = nat m"
  have k: "m = int k" "k < 10"
    using m by (simp_all add: k_def)
  have "48 + m = of_nat (48 + k)"
    by (simp add: k)
  then have "char_of (48 + m) = char_of (48 + k)"
    by (simp only: char_of_nat)
  with k show ?thesis
    by (simp add: is_digit_def)
qed

lemma digits_only_decimal: "0 \<le> n \<Longrightarrow> digits_only (decimal n)"
proof (induction n rule: decimal.induct)
  case (1 n)
  show ?case
  proof (cases "n < 10")
    case True
    with 1(2) show ?thesis by (subst decimal.simps) (simp add: is_digit_char_of)
  next
    case False
    with 1 show ?thesis by (subst decimal.simps) (simp add: is_digit_char_of)
  qed
qed

lemma decimal_nonempty [simp]: "decimal n \<noteq> []"
  by (subst decimal.simps) simp

lemma decimal_eq_zero:
  assumes "0 < n"
  shows "decimal n \<noteq> ''0''"
proof (cases "n < 10")
  case True
  have "char_of (48 + n) \<noteq> CHR ''0''"
  proof
    assume "char_of (48 + n) = CHR ''0''"
    then have "of_char (char_of (48 + n)) = (of_char CHR ''0'' :: int)" by simp
    with True assms show False by simp
  qed
  with True show ?thesis by (subst decimal.simps) simp
next
  case False
  then have "decimal n = decimal (n div 10) @ [char_of (48 + n mod 10)]"
    by (subst decimal.simps) simp
  then have "2 \<le> length (decimal n)"
    using decimal_nonempty[of "n div 10"] by (cases "decimal (n div 10)") simp_all
  then show ?thesis by auto
qed

lemma is_digit_not_special:
  "is_digit c \<Longrightarrow> c \<noteq> CHR ''.'' \<and> c \<noteq> CHR ''-'' \<and> c \<noteq> CHR ''E'' \<and> c \<noteq> CHR ''r''"
  by (auto simp: is_digit_def)

lemma format_digits_points:
  assumes "digits_only ds"
  shows "decimal_points (format_digits ds n) \<le> 1"
proof -
  have "decimal_points (take m ds) = 0" "decimal_points (drop m ds) = 0" for m
    using assms digits_only_take_drop digits_only_no_point by blast+
  then show ?thesis
    using assms by (simp add: format_digits_def Let_def digits_only_decimal)
qed

lemma format_digits_head:
  assumes "digits_only ds" "ds \<noteq> []"
  shows "\<exists>c t. format_digits ds n = c # t \<and> is_digit c"
proof -
  obtain c t where ds: "ds = c # t" and c: "is_digit c"
    using assms by (cases ds) auto
  have zero: "is_digit CHR ''0''"
    by (simp add: is_digit_def)
  have "0 < n \<Longrightarrow> take (nat n) (c # t) = c # take (nat n - 1) t"
    by (cases "nat n") simp_all
  then show ?thesis
    using c zero by (auto simp: format_digits_def Let_def ds)
qed

lemma format_digits_not_zero:
  assumes "ds \<noteq> []" "ds \<noteq> ''0''"
  shows "format_digits ds n \<noteq> ''0''"
proof -
  have plain: "ds @ replicate m CHR ''0'' \<noteq> ''0''" for m
    using assms by (cases ds) auto
  have point: "s @ CHR ''.'' # t \<noteq> ''0''" for s t
    by (cases s) auto
  have expo: "s @ CHR ''e'' # t \<noteq> ''0''" for s t
    by (cases s) auto
  show ?thesis
    by (simp add: format_digits_def Let_def plain point expo)
qed

lemma to_string_positive_cases [consumes 1, case_names one digits]:
  assumes "0 < r"
  obtains (one) "to_string_positive r = format_digits ''1'' (decimal_exponent r + 1)"
  | (digits) s where "to_string_positive r = format_digits (decimal s) (decimal_exponent r)"
      "0 < s"
proof (cases "shortest r (decimal_exponent r) 1")
  case (Pair s k)
  then have "to_string_positive r =
      (if s = 10 ^ k then format_digits ''1'' (decimal_exponent r + 1)
       else format_digits (decimal s) (decimal_exponent r))"
    by (simp only: to_string_positive_def Let_def prod.case)
  moreover have "0 < s"
    using shortest_positive[OF assms decimal_exponent_lower[OF assms], of 1] Pair by simp
  ultimately show ?thesis
    using one digits by (cases "s = 10 ^ k") simp_all
qed

lemma digits_only_one: "digits_only ''1''"
  by (simp add: is_digit_def)

lemma to_string_positive_points:
  assumes "0 < r"
  shows "decimal_points (to_string_positive r) \<le> 1"
  using assms
proof (cases rule: to_string_positive_cases)
  case one
  show ?thesis
    unfolding one by (rule format_digits_points) (rule digits_only_one)
next
  case (digits s)
  show ?thesis
    unfolding digits(1) using digits(2) by (intro format_digits_points digits_only_decimal) simp
qed

lemma to_string_positive_head:
  assumes "0 < r"
  shows "\<exists>c t. to_string_positive r = c # t \<and> is_digit c"
  using assms
proof (cases rule: to_string_positive_cases)
  case one
  show ?thesis
    unfolding one by (rule format_digits_head) (simp_all add: is_digit_def)
next
  case (digits s)
  show ?thesis
    unfolding digits(1) using digits(2)
    by (intro format_digits_head digits_only_decimal) simp_all
qed

lemma to_string_positive_not_zero:
  assumes "0 < r"
  shows "to_string_positive r \<noteq> ''0''"
  using assms
proof (cases rule: to_string_positive_cases)
  case one
  show ?thesis
    unfolding one by (rule format_digits_not_zero) simp_all
next
  case (digits s)
  show ?thesis
    unfolding digits(1) using digits(2)
    by (intro format_digits_not_zero decimal_eq_zero) simp_all
qed

lemma toString_points: "decimal_points (toString x) \<le> 1"
proof (cases x)
  case (Finite r)
  then show ?thesis
    using to_string_positive_points[of r] to_string_positive_points[of "- r"] by simp
qed simp_all

lemma toString_well_signed: "well_signed (toString x)"
proof (cases x)
  case (Finite r)
  show ?thesis
  proof (cases "r < 0")
    case True
    then obtain c t where ct: "to_string_positive (- r) = c # t" "is_digit c"
      using to_string_positive_head[of "- r"] by auto
    moreover have "to_string_positive (- r) \<noteq> ''0''"
      using True by (simp add: to_string_positive_not_zero)
    ultimately show ?thesis
      using Finite True is_digit_not_special[of c] by (auto simp: well_signed_def)
  next
    case False
    show ?thesis
    proof (cases "r = 0")
      case True
      with Finite show ?thesis by (simp add: well_signed_def)
    next
      case nz: False
      with False obtain c t where ct: "to_string_positive r = c # t" "is_digit c"
        using to_string_positive_head[of r] by auto
      then show ?thesis
        using Finite False nz is_digit_not_special[of c] by (auto simp: well_signed_def)
    qed
  qed
qed (simp_all add: well_signed_def)

lemma toString_not_Error: "toString x \<noteq> ''Error''"
proof -
  have "well_signed (toString x)"
    by (rule toString_well_signed)
  moreover have "r \<noteq> 0 \<Longrightarrow> \<not> r < 0 \<Longrightarrow> to_string_positive r \<noteq> ''Error''" for r
    using to_string_positive_head[of r] is_digit_not_special by fastforce
  ultimately show ?thesis
    by (cases x) (auto simp: well_signed_def)
qed

lemma round_half_even_ge_int:
  assumes "of_int m \<le> q"
  shows "m \<le> round_half_even q"
proof -
  have "m \<le> \<lfloor>q\<rfloor>" using assms by (simp add: le_floor_iff)
  then show ?thesis by (simp add: round_half_even_def Let_def)
qed

lemma nearest_overflow:
  assumes "of_int (2 ^ 1024) \<le> r"
  shows "of_int (2 ^ 1024) \<le> nearest r"
proof -
  have r: "0 < r"
    using assms by (rule less_le_trans[rotated]) simp
  define e where "e = max (binary_exponent r) (- 1022)"
  define u where "u = pow 2 (e - 52)"
  have u: "0 < u"
    by (simp add: u_def pow_pos)
  have near: "nearest r = of_int (round_half_even (r / u)) * u"
    using r by (simp add: nearest_def e_def u_def Let_def)
  have u_eq: "u = 2 powi (e - 52)"
    by (simp add: u_def pow_eq_powi)
  show ?thesis
  proof (cases "e \<le> 1076")
    case True
    define m :: int where "m = 2 ^ nat (1076 - e)"
    have "(of_int m :: rat) = 2 powi (1076 - e)"
      using True by (simp add: m_def power_int_def)
    then have mu: "of_int m * u = 2 powi 1024"
      by (simp add: u_eq flip: power_int_add)
    then have "of_int m * u \<le> r"
      using assms by (simp add: power_int_def)
    then have "of_int m \<le> r / u"
      using u by (simp add: pos_le_divide_eq)
    then have "m \<le> round_half_even (r / u)"
      by (rule round_half_even_ge_int)
    then have "of_int m * u \<le> of_int (round_half_even (r / u)) * u"
      using u by simp
    then show ?thesis
      unfolding near mu[symmetric] by (simp add: mu power_int_def)
  next
    case False
    then have e: "e = binary_exponent r" "1077 \<le> e"
      by (simp_all add: e_def max_def split: if_splits)
    have "pow 2 e \<le> r"
      unfolding e(1) binary_exponent_def using r by (intro floor_log_lower) simp_all
    then have le: "2 powi e \<le> r"
      by (simp add: pow_eq_powi)
    have "(2::rat) powi e = 2 powi (52 + (e - 52))"
      by simp
    also have "\<dots> = 2 powi 52 * 2 powi (e - 52)"
      by (rule power_int_add) simp
    also have "(2::rat) powi 52 = of_int (2 ^ 52)"
      by (simp add: power_int_def)
    finally have split: "(2::rat) powi e = of_int (2 ^ 52) * u"
      by (simp only: u_eq)
    with le have "of_int (2 ^ 52) \<le> r / u"
      using u by (simp add: pos_le_divide_eq)
    then have "2 ^ 52 \<le> round_half_even (r / u)"
      by (rule round_half_even_ge_int)
    then have step: "of_int (2 ^ 52) * u \<le> of_int (round_half_even (r / u)) * u"
      using u by (simp only: mult_le_cancel_right_pos of_int_le_iff)
    have "(of_int (2 ^ 1024) :: rat) = 2 powi 1024"
      by (simp add: power_int_def)
    also have "\<dots> \<le> 2 powi e"
      using e(2) by (intro power_int_increasing) simp_all
    also have "\<dots> = of_int (2 ^ 52) * u"
      by (rule split)
    also note step
    finally show ?thesis
      by (simp only: near)
  qed
qed

lemma fl_overflow: "of_int (2 ^ 1024) \<le> r \<Longrightarrow> fl neg r = Infinity neg"
  using nearest_overflow[of r] by (simp add: fl_def Let_def)

lemma isNaN_fl [simp]: "\<not> isNaN (fl neg r)"
  by (simp add: fl_def Let_def)

lemma performCalculation_NaN_iff:
  "isNaN (performCalculation op a b) \<longleftrightarrow>
     isNaN a \<or> isNaN b \<or> (op = Divide \<and> is_zero b) \<or> indeterminate op a b"
  by (cases op; cases a; cases b) (auto simp: num_sub_def Let_def)

lemma result_text_Error: "result_text x = ''Error'' \<longleftrightarrow> isNaN x"
  by (simp add: result_text_def toString_not_Error)

section \<open>Invariants of the reachable states\<close>

lemma well_signed_append:
  assumes "well_signed s" "is_digit c \<or> c = CHR ''.''"
  shows "well_signed (s @ [c])"
proof (cases s)
  case Nil
  with assms show ?thesis by (simp add: well_signed_def)
next
  case (Cons a w)
  have c: "c \<noteq> CHR ''r''" "c \<noteq> CHR ''-''"
    using assms(2) is_digit_not_special[of c] by auto
  show ?thesis
  proof (cases "a = CHR ''-''")
    case True
    with assms(1) Cons obtain b v where w: "w = b # v" "b \<noteq> CHR ''-''"
      by (cases w) (auto simp: well_signed_def)
    have "b # v @ [c] \<noteq> ''Error''"
      using c by (auto simp: append_eq_Cons_conv Cons_eq_append_conv)
    moreover have "b # v @ [c] \<noteq> ''0''"
      by simp
    ultimately show ?thesis
      using True Cons w by (simp add: well_signed_def)
  next
    case False
    with Cons show ?thesis by (simp add: well_signed_def)
  qed
qed

lemma well_signed_digit: "is_digit c \<Longrightarrow> well_signed [c]"
  using is_digit_not_special[of c] by (simp add: well_signed_def)

lemma well_signed_toggle:
  assumes "well_signed s" "s \<noteq> ''0''" "s \<noteq> ''Error''"
  shows "well_signed (if take 1 s = ''-'' then drop 1 s else ''-'' @ s)"
proof (cases s)
  case Nil
  with assms show ?thesis by (simp add: well_signed_def)
next
  case (Cons a w)
  show ?thesis
  proof (cases "a = CHR ''-''")
    case True
    with assms(1) Cons obtain b v where w: "w = b # v" "b \<noteq> CHR ''-''"
      by (cases w) (auto simp: well_signed_def)
    with True Cons show ?thesis by (simp add: well_signed_def)
  next
    case False
    with assms Cons show ?thesis by (simp add: well_signed_def)
  qed
qed

lemma append_char_not_Error:
  assumes "is_digit c \<or> c = CHR ''.''"
  shows "s @ [c] \<noteq> ''Error''"
proof
  assume "s @ [c] = ''Error''"
  then have "last (s @ [c]) = last ''Error''" by simp
  then have "c = CHR ''r''" by simp
  with assms is_digit_not_special[of c] show False by auto
qed

lemma display_invariant_initial: "display_invariant initialState"
  by (simp add: display_invariant_def initialState_def well_signed_def)

lemma display_invariant_digit:
  assumes "display_invariant st" "is_digit c"
  shows "display_invariant (handleDigitPress [c] st)"
  using assms well_signed_digit[of c] well_signed_append[of "displayValue st" c]
    append_char_not_Error[of c "displayValue st"] is_digit_not_special[of c]
  by (auto simp: display_invariant_def handleDigitPress_def)

lemma display_invariant_dot:
  assumes "display_invariant st"
  shows "display_invariant (handleDotPress st)"
  using assms well_signed_append[of "displayValue st" "CHR ''.''"]
    append_char_not_Error[of "CHR ''.''" "displayValue st"]
  by (auto simp: display_invariant_def handleDotPress_def well_signed_def)

lemma display_invariant_clear: "display_invariant (handleClearPress st)"
  by (simp add: display_invariant_def handleClearPress_def well_signed_def)

lemma well_signed_Error: "well_signed ''Error''"
  by (simp add: well_signed_def)

lemma well_signed_result_text: "well_signed (result_text x)"
  by (simp add: result_text_def toString_well_signed well_signed_Error)

lemma display_invariant_operator:
  assumes "display_invariant st"
  shows "display_invariant (handleOperatorPress op st)"
  using assms
  by (auto simp: display_invariant_def handleOperatorPress_def Let_def well_signed_result_text
      split: option.splits)

lemma display_invariant_equals:
  assumes "display_invariant st"
  shows "display_invariant (handleEqualsPress st)"
  using assms
  by (auto simp: display_invariant_def handleEqualsPress_def Let_def well_signed_result_text
      split: option.splits)

lemma display_invariant_toggle:
  assumes "display_invariant st"
  shows "display_invariant (handleToggleSignPress st)"
proof (cases "displayValue st = ''0'' \<or> displayValue st = ''Error''")
  case True
  with assms show ?thesis by (auto simp: handleToggleSignPress_def)
next
  case False
  let ?s = "displayValue st"
  from assms have ws: "well_signed ?s" by (simp add: display_invariant_def)
  have new: "displayValue (handleToggleSignPress st) =
      (if take 1 ?s = ''-'' then drop 1 ?s else ''-'' @ ?s)"
    using False by (simp add: handleToggleSignPress_def Let_def)
  have "well_signed (displayValue (handleToggleSignPress st))"
    unfolding new using ws False by (intro well_signed_toggle) simp_all
  moreover have "displayValue (handleToggleSignPress st) \<noteq> ''Error''"
  proof (cases "take 1 ?s = ''-''")
    case True
    then obtain w where s: "?s = CHR ''-'' # w"
      by (cases ?s) auto
    with ws have "w \<noteq> ''Error''" by (simp add: well_signed_def)
    with s True show ?thesis unfolding new by simp
  next
    case False
    then show ?thesis unfolding new by simp
  qed
  ultimately show ?thesis by (simp add: display_invariant_def)
qed

lemma display_invariant_percent:
  assumes "display_invariant st"
  shows "display_invariant (handlePercentPress st)"
  using assms
  by (simp add: display_invariant_def handlePercentPress_def Let_def toString_well_signed
      toString_not_Error)

lemma display_invariant_press:
  assumes "display_invariant st"
  shows "display_invariant (handleButtonPress label st)"
  by (cases label st rule: handleButtonPress_cases)
    (simp_all add: assms display_invariant_digit display_invariant_dot display_invariant_clear
      display_invariant_toggle display_invariant_percent display_invariant_operator
      display_invariant_equals)

lemma reachable_display_invariant: "reachable st \<Longrightarrow> display_invariant st"
  by (induction rule: reachable.induct)
    (simp_all add: display_invariant_initial display_invariant_press)

lemma reachable_presses: "reachable st \<Longrightarrow> reachable (presses labels st)"
  unfolding presses_def
  by (induction labels arbitrary: st) (simp_all add: reachable_press)

lemma no_point_iff: "CHR ''.'' \<notin> set s \<longleftrightarrow> decimal_points s = 0"
  by (induction s) simp_all

lemma decimal_points_drop: "decimal_points (drop m s) \<le> decimal_points s"
proof -
  have "decimal_points s = decimal_points (take m s) + decimal_points (drop m s)"
    by (metis append_take_drop_id decimal_points_simps(3))
  then show ?thesis by simp
qed

lemma decimal_points_result_text: "decimal_points (result_text x) \<le> 1"
  using toString_points[of x] by (simp add: result_text_def)

lemma decimal_points_press:
  assumes "decimal_points (displayValue st) \<le> 1"
  shows "decimal_points (displayValue (handleButtonPress label st)) \<le> 1"
proof (cases label st rule: handleButtonPress_cases)
  case (digit c)
  then show ?thesis
    using assms is_digit_not_special[of c] by (simp add: handleDigitPress_def)
next
  case dot
  then show ?thesis
    using assms by (simp add: handleDotPress_def no_point_iff)
next
  case clear
  then show ?thesis by (simp add: handleClearPress_def)
next
  case toggle
  then show ?thesis
    using assms decimal_points_drop[of 1 "displayValue st"]
    by (simp add: handleToggleSignPress_def Let_def)
next
  case percent
  then show ?thesis
    using assms toString_points by (simp add: handlePercentPress_def Let_def)
next
  case (operator op)
  then show ?thesis
    using assms decimal_points_result_text
    by (auto simp: handleOperatorPress_def Let_def split: option.splits)
next
  case equals
  then show ?thesis
    using assms decimal_points_result_text
    by (auto simp: handleEqualsPress_def Let_def split: option.splits)
next
  case other
  then show ?thesis using assms by simp
qed

lemma reachable_decimal_points: "reachable st \<Longrightarrow> decimal_points (displayValue st) \<le> 1"
proof (induction rule: reachable.induct)
  case reachable_initial
  show ?case by (simp add: initialState_def)
next
  case (reachable_press st label)
  from reachable_press.IH show ?case by (rule decimal_points_press)
qed

lemma pending_press:
  "(operator (handleButtonPress label st) = operator st
      \<and> previousValue (handleButtonPress label st) = previousValue st)
   \<or> (operator (handleButtonPress label st) = None
      \<and> previousValue (handleButtonPress label st) = None)
   \<or> (\<exists>op v. operator (handleButtonPress label st) = Some op
      \<and> previousValue (handleButtonPress label st) = Some v)"
  by (cases label st rule: handleButtonPress_cases)
    (auto simp: handleDigitPress_def handleDotPress_def handleClearPress_def
      handleToggleSignPress_def handlePercentPress_def handleOperatorPress_def
      handleEqualsPress_def Let_def split: option.splits)

lemma reachable_pending:
  "reachable st \<Longrightarrow> operator st = None \<longleftrightarrow> previousValue st = None"
proof (induction rule: reachable.induct)
  case reachable_initial
  show ?case by (simp add: initialState_def)
next
  case (reachable_press st label)
  with pending_press[of label st] show ?case by auto
qed

lemma reachable_error_new_entry:
  assumes "reachable st" "displayValue st = ''Error''"
  shows "isNewEntry st"
  using reachable_display_invariant[OF assms(1)] assms(2)
  by (simp add: display_invariant_def)

lemma toggle_display:
  "displayValue (handleToggleSignPress st) =
     (if displayValue st = ''0'' \<or> displayValue st = ''Error'' then displayValue st
      else if take 1 (displayValue st) = ''-'' then drop 1 (displayValue st)
      else ''-'' @ displayValue st)"
  by (simp add: handleToggleSignPress_def Let_def)

lemma toggle_twice:
  assumes "well_signed s" "s \<noteq> ''0''" "s \<noteq> ''Error''"
  shows "displayValue (handleToggleSignPress (handleToggleSignPress (st\<lparr>displayValue := s\<rparr>))) = s"
proof (cases s)
  case Nil
  with assms show ?thesis by (simp add: well_signed_def)
next
  case (Cons a w)
  show ?thesis
  proof (cases "a = CHR ''-''")
    case True
    with assms(1) Cons obtain b v where w: "w = b # v" "b \<noteq> CHR ''-''" "w \<noteq> ''0''" "w \<noteq> ''Error''"
      by (cases w) (auto simp: well_signed_def)
    with True Cons show ?thesis
      by (simp add: toggle_display)
  next
    case False
    with assms Cons show ?thesis
      by (simp add: toggle_display)
  qed
qed

lemma toggle_not_Error:
  assumes "well_signed (displayValue st)" "displayValue st \<noteq> ''Error''"
  shows "displayValue (handleToggleSignPress st) \<noteq> ''Error''"
proof (cases "take 1 (displayValue st) = ''-''")
  case True
  then obtain w where s: "displayValue st = CHR ''-'' # w"
    by (cases "displayValue st") auto
  with assms(1) have "w \<noteq> ''Error''"
    by (simp add: well_signed_def)
  with s assms(2) show ?thesis
    by (simp add: toggle_display)
next
  case False
  with assms(2) show ?thesis
    by (simp add: toggle_display)
qed

section \<open>A number too long for a double\<close>

lemma foldl_digits_nines:
  "foldl (\<lambda>acc c. 10 * acc + (of_char c - 48)) acc (replicate n CHR ''9'')
   = (acc + 1) * 10 ^ n - (1::int)"
  by (induction n arbitrary: acc) (simp_all add: algebra_simps)

lemma digits_value_nines: "digits_value (replicate n CHR ''9'') = 10 ^ n - 1"
  by (simp add: digits_value_def foldl_digits_nines)

lemma is_digit_nine: "is_digit CHR ''9''"
  by (simp add: is_digit_def)

lemma parseFloat_nines:
  "parseFloat (replicate (Suc n) CHR ''9'') = fl False (of_int (10 ^ Suc n - 1))"
proof -
  let ?s = "replicate (Suc n) CHR ''9''"
  have ws: "dropWhile is_white_space ?s = ?s"
    by (simp add: is_white_space_def)
  have "takeWhile is_digit ?s = ?s" "dropWhile is_digit ?s = []"
    using is_digit_nine by (simp_all del: replicate_Suc add: takeWhile_replicate dropWhile_replicate)
  moreover have "take 1 ?s = ''9''" "take 8 ?s \<noteq> ''Infinity''"
    by (simp_all add: take_Cons')
  ultimately show ?thesis
    unfolding parseFloat_def ws Let_def
    by (simp del: replicate_Suc add: digits_value_nines exponent_part_def pow_def)
qed

lemma parseFloat_nines_infinite:
  "parseFloat (replicate 310 CHR ''9'') = Infinity False"
proof -
  have "(2::int) ^ 1024 \<le> 10 ^ Suc 309 - 1"
    by simp
  then have "(of_int (2 ^ 1024) :: rat) \<le> of_int (10 ^ Suc 309 - 1)"
    by (simp only: of_int_le_iff)
  then have "fl False (of_int (10 ^ Suc 309 - 1)) = Infinity False"
    by (rule fl_overflow)
  moreover have "(310::nat) = Suc 309"
    by simp
  ultimately show ?thesis
    by (simp only: parseFloat_nines)
qed

lemma presses_nines:
  "presses (replicate (Suc n) ''9'') initialState =
     \<lparr>displayValue = replicate (Suc n) CHR ''9'', previousValue = None, operator = None,
      isNewEntry = False\<rparr>"
proof (induction n)
  case 0
  show ?case
    by (simp add: presses_def press_digit is_digit_nine handleDigitPress_def initialState_def)
next
  case (Suc n)
  have "replicate (Suc (Suc n)) ''9'' = replicate (Suc n) ''9'' @ [''9'']"
    by (simp only: replicate_append_same) simp
  then have "presses (replicate (Suc (Suc n)) ''9'') initialState =
      handleButtonPress ''9'' (presses (replicate (Suc n) ''9'') initialState)"
    by (simp only: presses_snoc)
  also have "\<dots> =
      \<lparr>displayValue = replicate (Suc n) CHR ''9'' @ ''9'', previousValue = None, operator = None,
       isNewEntry = False\<rparr>"
    unfolding Suc.IH by (simp add: press_digit is_digit_nine handleDigitPress_def)
  also have "replicate (Suc n) CHR ''9'' @ ''9'' = replicate (Suc (Suc n)) CHR ''9''"
    by (simp only: replicate_append_same) simp
  finally show ?case .
qed

lemma overflow_state:
  "presses (replicate 310 ''9'' @ [''-'']) initialState =
     \<lparr>displayValue = replicate 310 CHR ''9'', previousValue = Some (Infinity False),
      operator = Some Subtract, isNewEntry = True\<rparr>"
proof -
  have "(310::nat) = Suc 309"
    by simp
  then have "presses (replicate 310 ''9'') initialState =
      \<lparr>displayValue = replicate 310 CHR ''9'', previousValue = None, operator = None,
       isNewEntry = False\<rparr>"
    by (simp only: presses_nines)
  then show ?thesis
    unfolding presses_snoc press_minus
    by (simp add: handleOperatorPress_def parseFloat_nines_infinite)
qed

section \<open>The properties\<close>

text \<open>
  C1. From the initial state the presses 3, +, 4, +, 2, = leave \<open>9\<close> on the display:
  the second press of + evaluates the pending 3 + 4 (the display shows \<open>7\<close> and 7 is the
  pending operand), and = evaluates 7 + 2.
\<close>

theorem chained_operator_evaluation:
  "displayValue (presses [''3'', ''+'', ''4'', ''+''] initialState) = ''7''
   \<and> previousValue (presses [''3'', ''+'', ''4'', ''+''] initialState) = Some (Finite 7)
   \<and> displayValue (presses [''3'', ''+'', ''4'', ''+'', ''2'', ''=''] initialState) = ''9''"
  by code_simp

text \<open>
  C2. A division whose divisor is a zero gives not-a-number whatever the dividend is, and
  from the initial state the presses 5, \<open>\<div>\<close>, 0, = leave \<open>Error\<close> on the display.
\<close>

theorem division_by_zero_is_error:
  "(is_zero b \<longrightarrow> performCalculation Divide a b = NaN)
   \<and> displayValue (presses [''5'', divide_label, ''0'', ''=''] initialState) = ''Error''"
proof
  show "is_zero b \<longrightarrow> performCalculation Divide a b = NaN"
    by simp
  show "displayValue (presses [''5'', divide_label, ''0'', ''=''] initialState) = ''Error''"
    by code_simp
qed

theorem division_by_zero_is_error_witness:
  "is_zero (parseFloat ''0'')
   \<and> performCalculation Divide (parseFloat ''5'') (parseFloat ''0'') = NaN"
proof -
  have z: "is_zero (parseFloat ''0'')"
    by code_simp
  with division_by_zero_is_error [of "parseFloat ''0''" "parseFloat ''5''"]
  show ?thesis
    by blast
qed

text \<open>
  C3. In a reachable state whose display is \<open>Error\<close>, the press of any digit replaces the
  display with that one digit.
\<close>

theorem digit_replaces_error:
  assumes "reachable st" "displayValue st = ''Error''" "is_digit c"
  shows "displayValue (handleButtonPress [c] st) = [c]"
  using reachable_error_new_entry[OF assms(1,2)] assms(3)
  by (simp add: press_digit handleDigitPress_def)

theorem digit_replaces_error_witness:
  "reachable (presses [''5'', divide_label, ''0'', ''=''] initialState)
   \<and> displayValue (presses [''5'', divide_label, ''0'', ''=''] initialState) = ''Error''
   \<and> is_digit CHR ''7''
   \<and> displayValue
        (handleButtonPress ''7'' (presses [''5'', divide_label, ''0'', ''=''] initialState)) = ''7''"
proof -
  have r: "reachable (presses [''5'', divide_label, ''0'', ''=''] initialState)"
    by (rule reachable_presses [OF reachable_initial])
  have e: "displayValue (presses [''5'', divide_label, ''0'', ''=''] initialState) = ''Error''"
    by code_simp
  have d: "is_digit CHR ''7''"
    by (simp add: is_digit_def)
  from digit_replaces_error [OF r e d] r e d show ?thesis
    by blast
qed

text \<open>
  C4. The display of every reachable state has at most one decimal point, and every
  press keeps it so: from any state whose display has at most one decimal point, the
  next state's display has at most one.
\<close>

theorem at_most_one_decimal_point:
  "(reachable st \<longrightarrow> decimal_points (displayValue st) \<le> 1)
   \<and> (decimal_points (displayValue st) \<le> 1
        \<longrightarrow> decimal_points (displayValue (handleButtonPress label st)) \<le> 1)"
  using reachable_decimal_points decimal_points_press by blast

theorem at_most_one_decimal_point_witness:
  "reachable (presses [''1'', ''.'', ''5''] initialState)
   \<and> decimal_points (displayValue (presses [''1'', ''.'', ''5''] initialState)) \<le> 1
   \<and> decimal_points
        (displayValue (handleButtonPress ''.'' (presses [''1'', ''.'', ''5''] initialState))) \<le> 1"
  using at_most_one_decimal_point [of "presses [''1'', ''.'', ''5''] initialState" "''.''"]
    reachable_presses [OF reachable_initial, of "[''1'', ''.'', ''5'']"]
  by blast

text \<open>
  C5. In every reachable state the operator is absent exactly when the pending operand
  is absent. Every press leaves both as they are, or clears both, or sets both (an
  operator press writes the operator and the pending operand together).
\<close>

theorem operator_absent_iff_previous_value_absent:
  "(reachable st \<longrightarrow> (operator st = None \<longleftrightarrow> previousValue st = None))
   \<and> ((operator (handleButtonPress label st) = operator st
         \<and> previousValue (handleButtonPress label st) = previousValue st)
       \<or> (operator (handleButtonPress label st) = None
         \<and> previousValue (handleButtonPress label st) = None)
       \<or> (\<exists>op v. operator (handleButtonPress label st) = Some op
         \<and> previousValue (handleButtonPress label st) = Some v))"
  using reachable_pending pending_press by blast

theorem operator_absent_iff_previous_value_absent_witness:
  "reachable (presses [''3'', ''+''] initialState)
   \<and> (operator (presses [''3'', ''+''] initialState) = None
        \<longleftrightarrow> previousValue (presses [''3'', ''+''] initialState) = None)
   \<and> operator (presses [''3'', ''+''] initialState) = Some Add"
proof -
  have "operator (presses [''3'', ''+''] initialState) = Some Add"
    by code_simp
  then show ?thesis
    using operator_absent_iff_previous_value_absent [of "presses [''3'', ''+''] initialState"]
      reachable_presses [OF reachable_initial, of "[''3'', ''+'']"]
    by blast
qed

text \<open>
  C6, as stated, fails: \<open>Error\<close> also arises from an evaluation whose divisor is not a
  zero and whose operands are numbers. After 310 presses of 9 the display parses to
  \<open>Infinity\<close>; the press of \<open>-\<close> makes it the pending operand, and the press of = subtracts
  \<open>Infinity\<close> from \<open>Infinity\<close>, which is not-a-number: the display, which was not \<open>Error\<close>,
  becomes \<open>Error\<close>.
\<close>

theorem error_from_infinities_counterexample:
  "displayValue (presses (replicate 310 ''9'' @ [''-'']) initialState) \<noteq> ''Error''
   \<and> evaluation ''='' (presses (replicate 310 ''9'' @ [''-'']) initialState)
       = Some (Subtract, Infinity False, Infinity False)
   \<and> displayValue (handleButtonPress ''='' (presses (replicate 310 ''9'' @ [''-'']) initialState))
       = ''Error''
   \<and> \<not> (Subtract = Divide \<and> is_zero (Infinity False))
   \<and> \<not> isNaN (Infinity False)"
proof -
  have "replicate 310 CHR ''9'' \<noteq> ''Error''"
  proof
    assume "replicate 310 CHR ''9'' = ''Error''"
    then have "length (replicate 310 CHR ''9'') = length ''Error''"
      by (rule arg_cong)
    then show False
      by simp
  qed
  then show ?thesis
    unfolding overflow_state press_equals
    by (simp add: evaluation_def handleEqualsPress_def parseFloat_nines_infinite
        result_text_def num_sub_def)
qed

text \<open>
  C6, amended. When a press takes a reachable state whose display is not \<open>Error\<close> to a
  state whose display is \<open>Error\<close>, the press carried out an evaluation, the display is
  the text of its result, and an operand is not-a-number, or the evaluation is a division
  by a zero, or it is an operation on infinite operands that has no value (opposite
  infinities added, equal infinities subtracted, a zero times an infinity, an infinity
  divided by an infinity).
\<close>

theorem error_only_from_nan_evaluation:
  assumes "reachable st" "displayValue st \<noteq> ''Error''"
    "displayValue (handleButtonPress label st) = ''Error''"
  shows "\<exists>op a b. evaluation label st = Some (op, a, b)
    \<and> displayValue (handleButtonPress label st) = result_text (performCalculation op a b)
    \<and> (isNaN a \<or> isNaN b \<or> (op = Divide \<and> is_zero b) \<or> indeterminate op a b)"
proof (cases label st rule: handleButtonPress_cases)
  case (digit c)
  with assms(2,3) append_char_not_Error[of c "displayValue st"] show ?thesis
    by (auto simp: handleDigitPress_def split: if_splits)
next
  case dot
  with assms(2,3) append_char_not_Error[of "CHR ''.''" "displayValue st"] show ?thesis
    by (auto simp: handleDotPress_def split: if_splits)
next
  case clear
  with assms(3) show ?thesis
    by (simp add: handleClearPress_def)
next
  case toggle
  have "well_signed (displayValue st)"
    using reachable_display_invariant[OF assms(1)] by (simp add: display_invariant_def)
  with toggle assms(2,3) toggle_not_Error show ?thesis
    by auto
next
  case percent
  with assms(2,3) toString_not_Error show ?thesis
    by (auto simp: handlePercentPress_def Let_def split: if_splits)
next
  case (operator op')
  from assms(2,3) obtain op prev where pending:
    "previousValue st = Some prev" "operator st = Some op" "\<not> isNewEntry st"
    unfolding operator(2)
    by (auto simp: handleOperatorPress_def Let_def split: option.splits if_splits)
  let ?b = "parseFloat (displayValue st)"
  have ev: "evaluation label st = Some (op, prev, ?b)"
    using operator(1) pending by (simp add: evaluation_def)
  have disp: "displayValue (handleButtonPress label st) = result_text (performCalculation op prev ?b)"
    unfolding operator(2) using pending by (simp add: handleOperatorPress_def Let_def)
  with assms(3) have "isNaN (performCalculation op prev ?b)"
    by (simp add: result_text_Error)
  with ev disp show ?thesis
    by (simp add: performCalculation_NaN_iff)
next
  case equals
  from assms(2,3) obtain op prev where pending:
    "previousValue st = Some prev" "operator st = Some op"
    unfolding equals(2)
    by (auto simp: handleEqualsPress_def Let_def split: option.splits)
  let ?b = "parseFloat (displayValue st)"
  have ev: "evaluation label st = Some (op, prev, ?b)"
    using equals(1) pending by (simp add: evaluation_def)
  have disp: "displayValue (handleButtonPress label st) = result_text (performCalculation op prev ?b)"
    unfolding equals(2) using pending by (simp add: handleEqualsPress_def Let_def)
  with assms(3) have "isNaN (performCalculation op prev ?b)"
    by (simp add: result_text_Error)
  with ev disp show ?thesis
    by (simp add: performCalculation_NaN_iff)
next
  case other
  with assms(2,3) show ?thesis
    by simp
qed

theorem error_only_from_nan_evaluation_witness:
  "reachable (presses [''5'', divide_label, ''0''] initialState)
   \<and> displayValue (presses [''5'', divide_label, ''0''] initialState) \<noteq> ''Error''
   \<and> displayValue (handleButtonPress ''='' (presses [''5'', divide_label, ''0''] initialState))
       = ''Error''
   \<and> (\<exists>op a b. evaluation ''='' (presses [''5'', divide_label, ''0''] initialState)
         = Some (op, a, b)
       \<and> displayValue (handleButtonPress ''='' (presses [''5'', divide_label, ''0''] initialState))
         = result_text (performCalculation op a b)
       \<and> (isNaN a \<or> isNaN b \<or> (op = Divide \<and> is_zero b) \<or> indeterminate op a b))"
proof -
  have r: "reachable (presses [''5'', divide_label, ''0''] initialState)"
    by (rule reachable_presses [OF reachable_initial])
  have d: "displayValue (presses [''5'', divide_label, ''0''] initialState) \<noteq> ''Error''"
    by code_simp
  have e: "displayValue (handleButtonPress ''='' (presses [''5'', divide_label, ''0''] initialState))
      = ''Error''"
    by code_simp
  from error_only_from_nan_evaluation [OF r d e] r d e show ?thesis
    by blast
qed

text \<open>
  C7. In a reachable state whose display is neither \<open>0\<close> nor \<open>Error\<close>, two presses of
  the sign key restore the display, and one press strips a leading minus sign or, when
  there is none, puts one in front. On the display \<open>0\<close> or \<open>Error\<close> the sign key changes
  nothing.
\<close>

theorem toggle_sign_round_trip:
  "(reachable st \<and> displayValue st \<noteq> ''0'' \<and> displayValue st \<noteq> ''Error''
      \<longrightarrow> displayValue (handleButtonPress ''+/-'' (handleButtonPress ''+/-'' st)) = displayValue st
        \<and> displayValue (handleButtonPress ''+/-'' st) =
            (if take 1 (displayValue st) = ''-'' then drop 1 (displayValue st)
             else ''-'' @ displayValue st))
   \<and> (displayValue st = ''0'' \<or> displayValue st = ''Error''
      \<longrightarrow> handleButtonPress ''+/-'' st = st)"
proof (intro conjI impI)
  assume a: "reachable st \<and> displayValue st \<noteq> ''0'' \<and> displayValue st \<noteq> ''Error''"
  then have "well_signed (displayValue st)"
    using reachable_display_invariant by (simp add: display_invariant_def)
  with a toggle_twice[of "displayValue st" st]
  show "displayValue (handleButtonPress ''+/-'' (handleButtonPress ''+/-'' st)) = displayValue st"
    by (simp add: press_toggle_sign)
  from a show "displayValue (handleButtonPress ''+/-'' st) =
      (if take 1 (displayValue st) = ''-'' then drop 1 (displayValue st)
       else ''-'' @ displayValue st)"
    by (simp add: press_toggle_sign toggle_display)
next
  assume "displayValue st = ''0'' \<or> displayValue st = ''Error''"
  then show "handleButtonPress ''+/-'' st = st"
    by (auto simp: press_toggle_sign handleToggleSignPress_def)
qed

theorem toggle_sign_round_trip_witness:
  "reachable (presses [''5'', ''+/-''] initialState)
   \<and> displayValue (presses [''5'', ''+/-''] initialState) = ''-5''
   \<and> displayValue (handleButtonPress ''+/-'' (presses [''5'', ''+/-''] initialState)) = ''5''
   \<and> displayValue (handleButtonPress ''+/-''
        (handleButtonPress ''+/-'' (presses [''5'', ''+/-''] initialState))) = ''-5''
   \<and> displayValue initialState = ''0''
   \<and> handleButtonPress ''+/-'' initialState = initialState"
proof -
  have r: "reachable (presses [''5'', ''+/-''] initialState)"
    by (rule reachable_presses [OF reachable_initial])
  have d: "displayValue (presses [''5'', ''+/-''] initialState) = ''-5''"
    by code_simp
  have z: "displayValue initialState = ''0''"
    by (simp add: initialState_def)
  from toggle_sign_round_trip [of "presses [''5'', ''+/-''] initialState"]
    toggle_sign_round_trip [of initialState] r d z
  show ?thesis
    by simp
qed

text \<open>
  C8. The percent key changes nothing when the display does not parse as a number, and
  otherwise replaces the display with the text of the parsed value divided by 100; it
  leaves the pending operand and operator alone. From the initial state the presses 5, 0,
  \<open>%\<close> leave \<open>0.5\<close> on the display.
\<close>

theorem percent_scales_display:
  "handleButtonPress ''%'' st =
     (if isNaN (parseFloat (displayValue st)) then st
      else st\<lparr>displayValue := toString (num_div (parseFloat (displayValue st)) (Finite 100))\<rparr>)
   \<and> previousValue (handleButtonPress ''%'' st) = previousValue st
   \<and> operator (handleButtonPress ''%'' st) = operator st
   \<and> displayValue (presses [''5'', ''0'', ''%''] initialState) = ''0.5''"
proof -
  have example: "displayValue (presses [''5'', ''0'', ''%''] initialState) = ''0.5''"
    by code_simp
  show ?thesis
    unfolding press_percent using example
    by (simp add: handlePercentPress_def Let_def)
qed

text \<open>
  C9, as stated, fails: after the presses 0 and \<open>%\<close> the state is not in new-entry mode and
  the display is \<open>0\<close>, and the next digit 5 replaces that display instead of being appended
  to it.
\<close>

theorem percent_then_digit_counterexample:
  "\<not> isNewEntry (presses [''0''] initialState)
   \<and> displayValue (presses [''0'', ''%''] initialState) = ''0''
   \<and> displayValue (presses [''0'', ''%'', ''5''] initialState)
       \<noteq> displayValue (presses [''0'', ''%''] initialState) @ ''5''"
  by code_simp

text \<open>
  C9, amended. The percent key leaves the new-entry flag as it is. When it is pressed
  outside new-entry mode, the next digit is appended to the scaled text, unless that text
  is exactly \<open>0\<close>, which the digit replaces.
\<close>

theorem percent_keeps_entry_mode:
  "isNewEntry (handleButtonPress ''%'' st) = isNewEntry st
   \<and> (\<not> isNewEntry st \<and> is_digit c
      \<longrightarrow> displayValue (handleButtonPress [c] (handleButtonPress ''%'' st)) =
          (if displayValue (handleButtonPress ''%'' st) = ''0'' then [c]
           else displayValue (handleButtonPress ''%'' st) @ [c]))"
  by (simp add: press_percent press_digit handlePercentPress_def handleDigitPress_def Let_def)

theorem percent_keeps_entry_mode_witness:
  "\<not> isNewEntry (presses [''5'', ''0''] initialState)
   \<and> is_digit CHR ''7''
   \<and> displayValue (handleButtonPress ''%'' (presses [''5'', ''0''] initialState)) = ''0.5''
   \<and> displayValue (handleButtonPress ''7''
        (handleButtonPress ''%'' (presses [''5'', ''0''] initialState))) = ''0.57''"
proof -
  have n: "\<not> isNewEntry (presses [''5'', ''0''] initialState)"
    by code_simp
  have d: "is_digit CHR ''7''"
    by (simp add: is_digit_def)
  have p: "displayValue (handleButtonPress ''%'' (presses [''5'', ''0''] initialState)) = ''0.5''"
    by code_simp
  from percent_keeps_entry_mode [of "presses [''5'', ''0''] initialState" "CHR ''7''"] n d p
  show ?thesis
    by simp
qed

text \<open>
  C10. A reachable state that displays \<open>Error\<close> is in new-entry mode; hence the decimal
  point pressed there gives the display \<open>0.\<close> and is not appended to \<open>Error\<close>.
\<close>

theorem error_display_is_new_entry:
  assumes "reachable st" "displayValue st = ''Error''"
  shows "isNewEntry st \<and> displayValue (handleButtonPress ''.'' st) = ''0.''"
  using reachable_error_new_entry[OF assms]
  by (simp add: press_dot handleDotPress_def)

theorem error_display_is_new_entry_witness:
  "reachable (presses [''5'', divide_label, ''0'', ''=''] initialState)
   \<and> displayValue (presses [''5'', divide_label, ''0'', ''=''] initialState) = ''Error''
   \<and> isNewEntry (presses [''5'', divide_label, ''0'', ''=''] initialState)
   \<and> displayValue
        (handleButtonPress ''.'' (presses [''5'', divide_label, ''0'', ''=''] initialState)) = ''0.''"
proof -
  have r: "reachable (presses [''5'', divide_label, ''0'', ''=''] initialState)"
    by (rule reachable_presses [OF reachable_initial])
  have e: "displayValue (presses [''5'', divide_label, ''0'', ''=''] initialState) = ''Error''"
    by code_simp
  from error_display_is_new_entry [OF r e] r e show ?thesis
    by blast
qed

end
